theory Spec2Isabelle
  imports Main
begin

section \<open>JavaScript strings\<close>

text \<open>
  A JavaScript string is a sequence of UTF-16 code units. The embedding uses
  \<open>string\<close>, so every \<open>char\<close> stands for one code unit in the range 0..255 (the
  ASCII and Latin-1 blocks); code units above 255 are outside the model.

  The regular expression class \<open>\s\<close> and \<open>String.prototype.trim\<close> use the same
  set of code units (WhiteSpace and LineTerminator of ECMAScript). Restricted to
  0..255 these are TAB, LF, VT, FF, CR, SPACE and NO-BREAK SPACE.
\<close>

definition isWhiteSpace :: "char \<Rightarrow> bool" where
  "isWhiteSpace c \<longleftrightarrow>
     c = CHR 0x09 \<or> c = CHR 0x0A \<or> c = CHR 0x0B \<or> c = CHR 0x0C \<or> c = CHR 0x0D \<or>
     c = CHR 0x20 \<or> c = CHR 0xA0"

text \<open>\<open>s.trim()\<close>: white space removed at both ends.\<close>

definition trim :: "string \<Rightarrow> string" where
  "trim s = rev (dropWhile isWhiteSpace (rev (dropWhile isWhiteSpace s)))"

text \<open>
  \<open>s.toLowerCase()\<close>. Below 256 the Unicode lower-case mapping changes exactly the
  letters A..Z (65..90) and the Latin-1 capitals 192..222 without the
  multiplication sign 215; each moves up by 32.
\<close>

definition toLowerCaseUnit :: "char \<Rightarrow> char" where
  "toLowerCaseUnit c =
     (let n = (of_char c :: nat) in
      if (65 \<le> n \<and> n \<le> 90) \<or> (192 \<le> n \<and> n \<le> 222 \<and> n \<noteq> 215)
      then char_of (n + 32) else c)"

definition toLowerCase :: "string \<Rightarrow> string" where
  "toLowerCase s = map toLowerCaseUnit s"

text \<open>
  \<open>s.split(/\s+/)\<close>. The scan keeps the piece \<open>p\<close> read since the last separator;
  a white-space character closes the piece and the whole run of white space
  after it is the separator (the quantifier is greedy). The end of the string
  closes the last piece, so the result is never empty: the empty string gives
  one empty piece, and white space at the start or at the end of \<open>s\<close> gives an
  empty first or last piece.
\<close>

function split_ws_from :: "string \<Rightarrow> string \<Rightarrow> string list" where
  "split_ws_from p [] = [p]"
| "split_ws_from p (c # cs) =
     (if isWhiteSpace c then p # split_ws_from [] (dropWhile isWhiteSpace cs)
      else split_ws_from (p @ [c]) cs)"
  by pat_completeness auto
termination
  by (relation "measure (\<lambda>(p, s). length s)")
     (auto simp: le_imp_less_Suc length_dropWhile_le)

definition split_ws :: "string \<Rightarrow> string list" where
  "split_ws s = split_ws_from [] s"

text \<open>\<open>s.split(/\n/)\<close>: every single LF is a separator.\<close>

fun split_nl_from :: "string \<Rightarrow> string \<Rightarrow> string list" where
  "split_nl_from p [] = [p]"
| "split_nl_from p (c # cs) =
     (if c = CHR 0x0A then p # split_nl_from [] cs else split_nl_from (p @ [c]) cs)"

definition split_nl :: "string \<Rightarrow> string list" where
  "split_nl s = split_nl_from [] s"

text \<open>\<open>s.substring(start)\<close>: a start past the end gives the empty string.\<close>

definition substring :: "nat \<Rightarrow> string \<Rightarrow> string" where
  "substring start s = drop start s"

text \<open>\<open>xs.includes(x)\<close> on an array of strings.\<close>

definition arr_includes :: "string list \<Rightarrow> string \<Rightarrow> bool" where
  "arr_includes xs x \<longleftrightarrow> x \<in> set xs"

section \<open>Failures and asynchronous results\<close>

text \<open>
  A thrown exception or a rejected promise is the left injection of a sum.
  \<open>TypeError\<close> is what the engine throws for a method call on \<open>undefined\<close>;
  \<open>Failure\<close> carries whatever an external collaborator fails with.
\<close>

datatype error = TypeError | Failure string

text \<open>\<open>await p\<close> followed by the rest of the \<open>async\<close> function body.\<close>

definition await :: "error + 'a \<Rightarrow> ('a \<Rightarrow> error + 'b) \<Rightarrow> error + 'b" where
  "await p rest = (case p of Inl e \<Rightarrow> Inl e | Inr v \<Rightarrow> rest v)"

text \<open>A value that may be \<open>null\<close>.\<close>

datatype nullable = Null | Str string

text \<open>\<open>p.catch(cb)\<close>: a rejection becomes the callback's value.\<close>

definition promise_catch :: "error + string \<Rightarrow> (error \<Rightarrow> nullable) \<Rightarrow> error + nullable" where
  "promise_catch p cb = (case p of Inl e \<Rightarrow> Inr (cb e) | Inr v \<Rightarrow> Inr (Str v))"

section \<open>The table parser\<close>

text \<open>
  A plain object with string values, as a map from its own keys. An assignment
  \<open>obj[k] = v\<close> creates or overwrites the own property \<open>k\<close>, except for the key
  \<open>__proto__\<close>: that one is an accessor of \<open>Object.prototype\<close>, whose setter
  ignores a string, so no own property appears.
\<close>

type_synonym jsObject = "string \<rightharpoonup> string"

definition obj_set :: "jsObject \<Rightarrow> string \<Rightarrow> string \<Rightarrow> jsObject" where
  "obj_set obj k v = (if k = ''__proto__'' then obj else obj(k \<mapsto> v))"

text \<open>The header loop (lines 197 to 202), from index \<open>i\<close> on.\<close>

function colLoop :: "string list \<Rightarrow> string list \<Rightarrow> nat \<Rightarrow> (nat \<rightharpoonup> string) \<Rightarrow> (nat \<rightharpoonup> string)" where
  "colLoop cols desiredFields i colMapping =
     (if i < length cols then
        let columnName = toLowerCase (cols ! i) in
        colLoop cols desiredFields (i + 1)
          (if arr_includes desiredFields columnName then colMapping(i \<mapsto> columnName)
           else colMapping)
      else colMapping)"
  by pat_completeness auto
termination
  by (relation "measure (\<lambda>(cols, desiredFields, i, colMapping). length cols - i)") auto

declare colLoop.simps [simp del]

text \<open>
  The row loop (lines 209 to 220), from index \<open>i\<close> on. Every read of \<open>rowData\<close>
  is below its length: the loop test guards \<open>rowData ! i\<close>, and \<open>i\<close> is only
  incremented inside the body when \<open>i < length rowData - 1\<close>.
\<close>

function rowLoop :: "(nat \<rightharpoonup> string) \<Rightarrow> string list \<Rightarrow> nat \<Rightarrow> jsObject \<Rightarrow> jsObject" where
  "rowLoop colMapping rowData i rowObj =
     (if i < length rowData then
        let effectiveColumn = i;
            i' = (if rowData ! i = ''S'' \<and> i < length rowData - 1 then i + 1 else i);
            rowObj' = (case colMapping effectiveColumn of
                         None \<Rightarrow> rowObj
                       | Some k \<Rightarrow> obj_set rowObj k (rowData ! i'))
        in rowLoop colMapping rowData (i' + 1) rowObj'
      else rowObj)"
  by pat_completeness auto
termination
  by (relation "measure (\<lambda>(colMapping, rowData, i, rowObj). length rowData - i)") auto

declare rowLoop.simps [simp del]

text \<open>The callback of \<open>forEach\<close> (lines 206 to 223): the object pushed for one row.\<close>

definition rowBody :: "(nat \<rightharpoonup> string) \<Rightarrow> string \<Rightarrow> jsObject" where
  "rowBody colMapping row = (let rowData = split_ws row in rowLoop colMapping rowData 0 Map.empty)"

text \<open>
  \<open>parsePsTableOutput\<close> (lines 188 to 226). \<open>lines[0]\<close> of an empty array would be
  \<open>undefined\<close> and \<open>header.split\<close> would throw; that branch is kept.
\<close>

definition parsePsTableOutput :: "string \<Rightarrow> string list \<Rightarrow> error + jsObject list" where
  "parsePsTableOutput output desiredFields =
     (let lines = split_nl output in
      case lines of
        [] \<Rightarrow> Inl TypeError
      | header # _ \<Rightarrow>
          let cols = split_ws header;
              colMapping = colLoop cols desiredFields 0 Map.empty;
              data = drop 1 lines;
              formattedData =
                fold (\<lambda>row formattedData. formattedData @ [rowBody colMapping row])
                  (filter (\<lambda>row. trim row \<noteq> '''') data) []
          in Inr formattedData)"

text \<open>
  Reading fields off the parser's result, for statements about concrete inputs:
  the values of the keys \<open>ks\<close> in every record (\<open>None\<close> where a record has no such
  key).
\<close>

definition fieldsOf :: "string list \<Rightarrow> error + jsObject list \<Rightarrow> error + string option list list" where
  "fieldsOf ks result = map_sum id (map (\<lambda>rowObj. map rowObj ks)) result"

section \<open>The Adb class\<close>

text \<open>
  What \<open>Adb\<close> inherits from \<open>DebugBridge\<close> (whose source is not part of these
  files) is taken as given: the path of the binary (the field \<open>_adbPath\<close>),
  \<open>runShortAdbCommand\<close>, which yields the collected standard output of one
  command or fails, and \<open>getCommonDeviceInfo\<close>, which yields the base table of
  device properties or fails. An \<open>Observable\<close> of one command's output and the
  promise made from it are the same outcome here: the output, or the failure.
\<close>

record debugBridge =
  adbPath :: string
  runShortAdbCommand :: "string \<Rightarrow> string list \<Rightarrow> error + string"
  getCommonDeviceInfo :: "string \<Rightarrow> error + (string \<rightharpoonup> nullable)"

definition getAndroidProp :: "debugBridge \<Rightarrow> string \<Rightarrow> string \<Rightarrow> error + string" where
  "getAndroidProp adb device key =
     map_sum id (\<lambda>s. trim s) (runShortAdbCommand adb device [''shell'', ''getprop'', key])"

definition getInstalledPackages :: "debugBridge \<Rightarrow> string \<Rightarrow> error + string list" where
  "getInstalledPackages adb device =
     (let prefix = ''package:'' in
      await (runShortAdbCommand adb device [''shell'', ''pm'', ''list'', ''packages''])
        (\<lambda>stdout. Inr (map (\<lambda>s. substring (length prefix) s) (split_ws (trim stdout)))))"

definition isPackageInstalled :: "debugBridge \<Rightarrow> string \<Rightarrow> string \<Rightarrow> error + bool" where
  "isPackageInstalled adb device pkg =
     await (getInstalledPackages adb device) (\<lambda>packages. Inr (arr_includes packages pkg))"

definition getDeviceModel :: "debugBridge \<Rightarrow> string \<Rightarrow> error + string" where
  "getDeviceModel adb device =
     map_sum id (\<lambda>s. if s = ''sdk'' then ''emulator'' else s)
       (getAndroidProp adb device ''ro.product.model'')"

definition getBrand :: "debugBridge \<Rightarrow> string \<Rightarrow> error + string" where
  "getBrand adb device = getAndroidProp adb device ''ro.product.brand''"

definition getManufacturer :: "debugBridge \<Rightarrow> string \<Rightarrow> error + string" where
  "getManufacturer adb device = getAndroidProp adb device ''ro.product.manufacturer''"

definition getOSVersion :: "debugBridge \<Rightarrow> string \<Rightarrow> error + string" where
  "getOSVersion adb device = getAndroidProp adb device ''ro.build.version.release''"

text \<open>
  \<open>getDeviceInfo\<close> (lines 67 to 80). The table is a \<open>Map\<close>; \<open>infoTable.set(k, v)\<close> is
  the map update.
\<close>

definition unknownCB :: "error \<Rightarrow> nullable" where
  "unknownCB e = Null"

definition getDeviceInfo :: "debugBridge \<Rightarrow> string \<Rightarrow> error + (string \<rightharpoonup> nullable)" where
  "getDeviceInfo adb device =
     await (getCommonDeviceInfo adb device) (\<lambda>infoTable.
     await (promise_catch (getOSVersion adb device) unknownCB) (\<lambda>v1.
     let infoTable = infoTable(''android_version'' \<mapsto> v1) in
     await (promise_catch (getManufacturer adb device) unknownCB) (\<lambda>v2.
     let infoTable = infoTable(''manufacturer'' \<mapsto> v2) in
     await (promise_catch (getBrand adb device) unknownCB) (\<lambda>v3.
     let infoTable = infoTable(''brand'' \<mapsto> v3) in
     Inr infoTable))))"

subsection \<open>Streams of process messages\<close>

text \<open>
  The messages of a watched process, by their \<open>kind\<close>.
\<close>

datatype processMessage =
  KindStdout string | KindStderr string | KindExit "int option" | KindError error

text \<open>
  An observable that ends is the list of values it emits followed by its end:
  completion (\<open>None\<close>) or an error. The operators used by \<open>getJavaProcesses\<close>:
  \<open>catch\<close> continues an errored stream with the stream its selector returns,
  \<open>take(n)\<close> completes right after the \<open>n\<close>-th value, \<open>map\<close> transforms the values,
  and \<open>toPromise\<close> resolves with the last value (\<open>undefined\<close>, here \<open>None\<close>, when
  the stream completed without a value) or rejects with the stream's error.
\<close>

datatype 'a observable = Observable (emitted: "'a list") (ending: "error option")

definition obs_of :: "'a \<Rightarrow> 'a observable" where
  "obs_of x = Observable [x] None"

definition obs_catch :: "'a observable \<Rightarrow> (error \<Rightarrow> 'a observable) \<Rightarrow> 'a observable" where
  "obs_catch src selector =
     (case ending src of
        None \<Rightarrow> src
      | Some e \<Rightarrow> Observable (emitted src @ emitted (selector e)) (ending (selector e)))"

definition obs_take :: "nat \<Rightarrow> 'a observable \<Rightarrow> 'a observable" where
  "obs_take n src =
     (if n \<le> length (emitted src) then Observable (take n (emitted src)) None else src)"

definition obs_map :: "('a \<Rightarrow> 'b) \<Rightarrow> 'a observable \<Rightarrow> 'b observable" where
  "obs_map f src = Observable (map f (emitted src)) (ending src)"

definition toPromise :: "'a observable \<Rightarrow> error + 'a option" where
  "toPromise src =
     (case ending src of
        Some e \<Rightarrow> Inl e
      | None \<Rightarrow> Inr (if emitted src = [] then None else Some (last (emitted src))))"

text \<open>
  \<open>getJavaProcesses\<close> (lines 146 to 173). \<open>observeProcessRaw\<close> is imported from the
  process module and is a parameter here; it is always called with the options
  \<open>killTreeWhenDone: true\<close> and \<open>isExitError: () => false\<close>. \<open>jdwpPids.has(row.pid)\<close>
  is false for a row without the key \<open>pid\<close>, since the set holds strings only.
\<close>

definition jdwpPidsOf :: "processMessage \<Rightarrow> string set" where
  "jdwpPidsOf output =
     (case output of
        KindStdout block \<Rightarrow> fold (\<lambda>pid jdwpPids. insert (trim pid) jdwpPids) (split_ws block) {}
      | _ \<Rightarrow> {})"

definition has :: "string set \<Rightarrow> string option \<Rightarrow> bool" where
  "has s v = (case v of None \<Rightarrow> False | Some x \<Rightarrow> x \<in> s)"

definition getJavaProcesses ::
  "debugBridge \<Rightarrow> (string \<Rightarrow> string list \<Rightarrow> processMessage observable) \<Rightarrow> string
     \<Rightarrow> error + jsObject list option" where
  "getJavaProcesses adb observeProcessRaw device =
     await
       (await (runShortAdbCommand adb device [''shell'', ''ps''])
          (\<lambda>stdout. let psOutput = trim stdout in
                     parsePsTableOutput psOutput [''user'', ''pid'', ''name'']))
       (\<lambda>allProcesses.
          let args = (if device \<noteq> '''' then [''-s'', device] else []) @ [''jdwp''] in
          toPromise
            (obs_map
               (\<lambda>output. let jdwpPids = jdwpPidsOf output in
                          filter (\<lambda>row. has jdwpPids (row ''pid'')) allProcesses)
               (obs_take 1
                  (obs_catch (observeProcessRaw (adbPath adb) args)
                     (\<lambda>error. obs_of (KindError error))))))"

section \<open>Names for the parts of a parse call\<close>

text \<open>
  The header's tokens, the column mapping built from them and the data rows that
  reach the row callback, named after the local variables of
  \<open>parsePsTableOutput\<close> so that statements can refer to them.
\<close>

definition headerCols :: "string \<Rightarrow> string list" where
  "headerCols output = (case split_nl output of [] \<Rightarrow> [] | header # _ \<Rightarrow> split_ws header)"

definition headerMapping :: "string \<Rightarrow> string list \<Rightarrow> (nat \<rightharpoonup> string)" where
  "headerMapping output desiredFields = colLoop (headerCols output) desiredFields 0 Map.empty"

definition dataRows :: "string \<Rightarrow> string list" where
  "dataRows output = filter (\<lambda>row. trim row \<noteq> '''') (drop 1 (split_nl output))"

text \<open>Two neighbouring tokens of a row are both the token \<open>S\<close>.\<close>

fun adjacentS :: "string list \<Rightarrow> bool" where
  "adjacentS (a # b # rest) = ((a = ''S'' \<and> b = ''S'') \<or> adjacentS (b # rest))"
| "adjacentS _ = False"

text \<open>Lines joined by LF, for writing down a concrete output.\<close>

fun joinLines :: "string list \<Rightarrow> string" where
  "joinLines [] = []"
| "joinLines [l] = l"
| "joinLines (l # ls) = l @ CHR 0x0A # joinLines ls"

text \<open>
  A bridge for concrete statements: every command answers by its argument list
  alone, and the base table of device properties is fixed.
\<close>

definition stubBridge ::
  "(string list \<Rightarrow> error + string) \<Rightarrow> (error + (string \<rightharpoonup> nullable)) \<Rightarrow> debugBridge" where
  "stubBridge run info =
     \<lparr>adbPath = ''adb'',
      runShortAdbCommand = (\<lambda>device args. run args),
      getCommonDeviceInfo = (\<lambda>device. info)\<rparr>"

section \<open>Properties of the string operations\<close>

lemma split_ws_from_nonempty: "split_ws_from p s \<noteq> []"
  by (induction p s rule: split_ws_from.induct) auto

lemma split_nl_from_nonempty: "split_nl_from p s \<noteq> []"
  by (induction s arbitrary: p) auto

lemma toLowerCaseUnit_idem: "toLowerCaseUnit (toLowerCaseUnit c) = toLowerCaseUnit c"
  unfolding toLowerCaseUnit_def Let_def by (auto simp: of_char_of)

lemma toLowerCase_idem: "toLowerCase (toLowerCase s) = toLowerCase s"
  by (simp add: toLowerCase_def toLowerCaseUnit_idem)

text \<open>A string trims to the empty string exactly when it holds white space only.\<close>

lemma trim_eq_Nil_iff: "trim s = [] \<longleftrightarrow> (\<forall>c\<in>set s. isWhiteSpace c)"
proof -
  have "(\<forall>c\<in>set (dropWhile isWhiteSpace s). isWhiteSpace c) \<longleftrightarrow> (\<forall>c\<in>set s. isWhiteSpace c)"
    by (induction s) auto
  then show ?thesis
    by (simp add: trim_def dropWhile_eq_Nil_conv)
qed

section \<open>The loops of the parser\<close>

text \<open>Pushing one object per row onto an array is mapping the callback over the rows.\<close>

lemma fold_push: "fold (\<lambda>row formattedData. formattedData @ [f row]) rows acc = acc @ map f rows"
  by (induction rows arbitrary: acc) auto

lemma parse_eq:
  "parsePsTableOutput output desiredFields =
     Inr (map (rowBody (headerMapping output desiredFields)) (dataRows output))"
  using split_nl_from_nonempty[of "[]" "output"]
  by (auto simp: parsePsTableOutput_def headerMapping_def headerCols_def dataRows_def
      split_nl_def fold_push Let_def split: list.splits)

text \<open>
  The header loop binds column \<open>j\<close> exactly when the lower-cased token \<open>j\<close> is a
  desired field, and binds it to that lower-cased token.
\<close>

lemma colLoop_apply:
  "colLoop cols d i m j =
     (if i \<le> j \<and> j < length cols \<and> toLowerCase (cols ! j) \<in> set d
      then Some (toLowerCase (cols ! j)) else m j)"
proof (induction cols d i m rule: colLoop.induct)
  case (1 cols d i m)
  show ?case
  proof (cases "i < length cols")
    case True
    then show ?thesis
      using "1.IH"[OF True refl]
      by (subst colLoop.simps) (auto simp: Let_def arr_includes_def le_Suc_eq)
  next
    case False
    then show ?thesis by (subst colLoop.simps) auto
  qed
qed

lemma headerMapping_apply:
  "headerMapping output d j =
     (if j < length (headerCols output) \<and> toLowerCase (headerCols output ! j) \<in> set d
      then Some (toLowerCase (headerCols output ! j)) else None)"
  by (simp add: headerMapping_def colLoop_apply)

text \<open>One turn of the row loop, and its exit.\<close>

lemma rowLoop_step:
  "i < length rowData \<Longrightarrow>
   rowLoop m rowData i obj =
     rowLoop m rowData ((if rowData ! i = ''S'' \<and> i < length rowData - 1 then i + 1 else i) + 1)
       (case m i of None \<Rightarrow> obj
        | Some k \<Rightarrow> obj_set obj k (rowData ! (if rowData ! i = ''S'' \<and> i < length rowData - 1 then i + 1 else i)))"
  by (subst rowLoop.simps) (auto simp: Let_def)

lemma rowLoop_done: "\<not> i < length rowData \<Longrightarrow> rowLoop m rowData i obj = obj"
  by (subst rowLoop.simps) simp

text \<open>
  A key that no column from \<open>i\<close> on is bound to keeps its value, and so does the key
  \<open>__proto__\<close>.
\<close>

lemma rowLoop_frame:
  "(\<forall>j. i \<le> j \<and> j < length rowData \<longrightarrow> m j \<noteq> Some k) \<Longrightarrow> rowLoop m rowData i obj k = obj k"
proof (induction m rowData i obj rule: rowLoop.induct)
  case (1 m rowData i obj)
  show ?case
  proof (cases "i < length rowData")
    case True
    let ?i' = "if rowData ! i = ''S'' \<and> i < length rowData - 1 then i + 1 else i"
    let ?obj' = "case m i of None \<Rightarrow> obj | Some k' \<Rightarrow> obj_set obj k' (rowData ! ?i')"
    have ih: "rowLoop m rowData (?i' + 1) ?obj' k = ?obj' k"
      using "1.IH"[OF True refl refl refl] "1.prems" by auto
    have "m i \<noteq> Some k" using "1.prems" True by auto
    then have "?obj' k = obj k" by (auto simp: obj_set_def split: option.splits)
    then show ?thesis using ih rowLoop_step[OF True, of m obj] by simp
  next
    case False
    then show ?thesis by (simp add: rowLoop_done)
  qed
qed

lemma rowLoop_proto: "rowLoop m rowData i obj ''__proto__'' = obj ''__proto__''"
proof (induction m rowData i obj rule: rowLoop.induct)
  case (1 m rowData i obj)
  show ?case
  proof (cases "i < length rowData")
    case True
    let ?i' = "if rowData ! i = ''S'' \<and> i < length rowData - 1 then i + 1 else i"
    let ?obj' = "case m i of None \<Rightarrow> obj | Some k' \<Rightarrow> obj_set obj k' (rowData ! ?i')"
    have ih: "rowLoop m rowData (?i' + 1) ?obj' ''__proto__'' = ?obj' ''__proto__''"
      using "1.IH"[OF True refl refl refl] by auto
    have "?obj' ''__proto__'' = obj ''__proto__''" by (auto simp: obj_set_def split: option.splits)
    then show ?thesis using ih rowLoop_step[OF True, of m obj] by simp
  next
    case False
    then show ?thesis by (simp add: rowLoop_done)
  qed
qed

text \<open>
  A key of the result that was not in the object before belongs to a column
  below the number of tokens, and its value is one of the tokens.
\<close>

lemma rowLoop_key:
  "rowLoop m rowData i obj k = Some v \<Longrightarrow>
     obj k = Some v \<or> (\<exists>j. i \<le> j \<and> j < length rowData \<and> m j = Some k \<and> v \<in> set rowData)"
proof (induction m rowData i obj rule: rowLoop.induct)
  case (1 m rowData i obj)
  show ?case
  proof (cases "i < length rowData")
    case True
    let ?i' = "if rowData ! i = ''S'' \<and> i < length rowData - 1 then i + 1 else i"
    let ?obj' = "case m i of None \<Rightarrow> obj | Some k' \<Rightarrow> obj_set obj k' (rowData ! ?i')"
    have i': "?i' < length rowData" using True by auto
    have "rowLoop m rowData (?i' + 1) ?obj' k = Some v"
      using "1.prems" rowLoop_step[OF True, of m obj] by simp
    from "1.IH"[OF True refl refl refl this]
    consider "?obj' k = Some v" | "\<exists>j. ?i' + 1 \<le> j \<and> j < length rowData \<and> m j = Some k \<and> v \<in> set rowData"
      by blast
    then show ?thesis
    proof cases
      case 1
      show ?thesis
      proof (cases "obj k = Some v")
        case True then show ?thesis by simp
      next
        case False
        with 1 have "m i = Some k \<and> v = rowData ! ?i'"
          by (auto simp: obj_set_def split: option.splits if_splits)
        then show ?thesis using True i' nth_mem[OF i'] by auto
      qed
    next
      case 2
      then obtain j where "?i' + 1 \<le> j" "j < length rowData" "m j = Some k" "v \<in> set rowData" by blast
      then have "i \<le> j \<and> j < length rowData \<and> m j = Some k \<and> v \<in> set rowData"
        by (auto split: if_splits)
      then show ?thesis by blast
    qed
  next
    case False
    then show ?thesis using "1.prems" by (simp add: rowLoop_done)
  qed
qed

text \<open>Without neighbouring \<open>S\<close> tokens, the token after an \<open>S\<close> is not an \<open>S\<close>.\<close>

lemma adjacentS_nth:
  "\<not> adjacentS rowData \<Longrightarrow> j + 1 < length rowData \<Longrightarrow> rowData ! j = ''S'' \<Longrightarrow> rowData ! (j + 1) \<noteq> ''S''"
proof (induction rowData arbitrary: j rule: adjacentS.induct)
  case (1 a b rest)
  then show ?case by (cases j) auto
qed auto

text \<open>
  Without neighbouring \<open>S\<close> tokens, a value \<open>S\<close> written by the loop is the last
  token of the row.
\<close>

lemma rowLoop_stored_S:
  "\<not> adjacentS rowData \<Longrightarrow> rowLoop m rowData i obj k = Some ''S'' \<Longrightarrow>
     obj k = Some ''S'' \<or> (rowData \<noteq> [] \<and> last rowData = ''S'')"
proof (induction m rowData i obj rule: rowLoop.induct)
  case (1 m rowData i obj)
  show ?case
  proof (cases "i < length rowData")
    case True
    let ?i' = "if rowData ! i = ''S'' \<and> i < length rowData - 1 then i + 1 else i"
    let ?obj' = "case m i of None \<Rightarrow> obj | Some k' \<Rightarrow> obj_set obj k' (rowData ! ?i')"
    have "rowLoop m rowData (?i' + 1) ?obj' k = Some ''S''"
      using "1.prems"(2) rowLoop_step[OF True, of m obj] by simp
    from "1.IH"[OF True refl refl refl "1.prems"(1) this]
    consider "?obj' k = Some ''S''" | "rowData \<noteq> [] \<and> last rowData = ''S''" by blast
    then show ?thesis
    proof cases
      case 1
      show ?thesis
      proof (cases "obj k = Some ''S''")
        case True then show ?thesis by simp
      next
        case False
        with 1 have v: "rowData ! ?i' = ''S''"
          by (auto simp: obj_set_def split: option.splits if_splits)
        have "\<not> (rowData ! i = ''S'' \<and> i < length rowData - 1)"
        proof
          assume a: "rowData ! i = ''S'' \<and> i < length rowData - 1"
          then have "i + 1 < length rowData" by linarith
          with a have "rowData ! (i + 1) \<noteq> ''S''"
            using adjacentS_nth[OF "1.prems"(1), of i] by blast
          with a v show False by simp
        qed
        with v True have "rowData ! i = ''S''" "i = length rowData - 1" by auto
        moreover have ne: "rowData \<noteq> []" using True by auto
        ultimately show ?thesis using last_conv_nth[OF ne] by simp
      qed
    next
      case 2 then show ?thesis by simp
    qed
  next
    case False
    then show ?thesis using "1.prems" by (simp add: rowLoop_done)
  qed
qed

text \<open>
  Without neighbouring \<open>S\<close> tokens the loop arrives at every index that holds an
  \<open>S\<close>; what it writes there stays when no later column has the same name.
\<close>

lemma rowLoop_reaches_S:
  assumes "\<not> adjacentS rowData" and "s \<le> i" and "i < length rowData" and "rowData ! i = ''S''"
    and "m i = Some k" and "k \<noteq> ''__proto__''"
    and "\<forall>j. i < j \<and> j < length rowData \<longrightarrow> m j \<noteq> Some k"
  shows "rowLoop m rowData s obj k = Some (if i + 1 < length rowData then rowData ! (i + 1) else ''S'')"
  using assms
proof (induction m rowData s obj rule: rowLoop.induct)
  case (1 m rowData s obj)
  have s: "s < length rowData" using "1.prems" by simp
  let ?s' = "if rowData ! s = ''S'' \<and> s < length rowData - 1 then s + 1 else s"
  let ?obj' = "case m s of None \<Rightarrow> obj | Some k' \<Rightarrow> obj_set obj k' (rowData ! ?s')"
  have step: "rowLoop m rowData s obj = rowLoop m rowData (?s' + 1) ?obj'"
    by (rule rowLoop_step[OF s])
  show ?case
  proof (cases "s = i")
    case True
    have "rowLoop m rowData (?s' + 1) ?obj' k = ?obj' k"
      by (rule rowLoop_frame) (use "1.prems" True in auto)
    moreover have "?obj' k = Some (if i + 1 < length rowData then rowData ! (i + 1) else ''S'')"
      using "1.prems" True by (auto simp: obj_set_def)
    ultimately show ?thesis using step by simp
  next
    case False
    then have lt: "s < i" using "1.prems" by simp
    have "?s' + 1 \<le> i"
    proof (cases "rowData ! s = ''S'' \<and> s < length rowData - 1")
      case True
      then have "s + 1 < length rowData" by linarith
      with True have "rowData ! (s + 1) \<noteq> ''S''"
        using adjacentS_nth[OF "1.prems"(1), of s] by blast
      then have "s + 1 \<noteq> i" using "1.prems" by auto
      then show ?thesis using lt True by auto
    next
      case False
      then show ?thesis using lt by auto
    qed
    from "1.IH"[OF s refl refl refl "1.prems"(1) this "1.prems"(3-7)]
    show ?thesis using step by simp
  qed
qed

text \<open>A row with one more token in front is the same walk over shifted columns.\<close>

lemma rowLoop_shift:
  "rowLoop m (x # ts) (Suc i) obj = rowLoop (\<lambda>j. m (Suc j)) ts i obj"
proof (induction "\<lambda>j. m (Suc j)" ts i obj rule: rowLoop.induct)
  case (1 ts i obj)
  show ?case
  proof (cases "i < length ts")
    case True
    let ?i' = "if ts ! i = ''S'' \<and> i < length ts - 1 then i + 1 else i"
    let ?obj' = "case m (Suc i) of None \<Rightarrow> obj | Some k' \<Rightarrow> obj_set obj k' (ts ! ?i')"
    have a: "rowLoop (\<lambda>j. m (Suc j)) ts i obj = rowLoop (\<lambda>j. m (Suc j)) ts (?i' + 1) ?obj'"
      using rowLoop_step[OF True, of "\<lambda>j. m (Suc j)" obj] by simp
    have b: "rowLoop m (x # ts) (Suc i) obj = rowLoop m (x # ts) (Suc (?i' + 1)) ?obj'"
      using True rowLoop_step[of "Suc i" "x # ts" m obj]
      by (auto split: if_splits cong: option.case_cong)
    have "rowLoop m (x # ts) (Suc (?i' + 1)) ?obj' = rowLoop (\<lambda>j. m (Suc j)) ts (?i' + 1) ?obj'"
      using "1.hyps"[OF True refl refl refl] by simp
    with a b show ?thesis by simp
  next
    case False
    then show ?thesis by (simp add: rowLoop_done)
  qed
qed

text \<open>With no bound column below the number of tokens the object is left as it was.\<close>

lemma rowLoop_unbound:
  "(\<forall>j. j < length rowData \<longrightarrow> m j = None) \<Longrightarrow> rowLoop m rowData i obj = obj"
  by (rule ext) (simp add: rowLoop_frame)

text \<open>
  The records of a parse call, by index: record \<open>r\<close> is the row loop run from index 0
  on the tokens of data row \<open>r\<close>, with an empty object to start from.
\<close>

lemma records_nth:
  assumes "parsePsTableOutput output desiredFields = Inr records" and "r < length records"
  shows "r < length (dataRows output)"
    and "records ! r = rowLoop (headerMapping output desiredFields) (split_ws (dataRows output ! r)) 0 Map.empty"
  using assms by (auto simp: parse_eq rowBody_def)

section \<open>The claims about the table parser\<close>

text \<open>
  C2. For every input text and list of desired fields, \<open>parsePsTableOutput\<close> returns
  one record per data line (a line after the first) whose trimmed content is not
  empty, in the order of those lines: the result is the row callback mapped over
  these lines, and its length is their number. Lines that are blank after
  trimming give no record.
\<close>

theorem parsePsTableOutput_one_record_per_data_row:
  "parsePsTableOutput output desiredFields =
     Inr (map (rowBody (headerMapping output desiredFields))
            (filter (\<lambda>row. trim row \<noteq> '''') (drop 1 (split_nl output))))
   \<and> (\<exists>records. parsePsTableOutput output desiredFields = Inr records
         \<and> length records = length (filter (\<lambda>row. trim row \<noteq> '''') (drop 1 (split_nl output))))"
  by (simp add: parse_eq dataRows_def)

text \<open>
  C1, as amended. On a data row in which no two neighbouring tokens are both
  \<open>S\<close>: a value \<open>S\<close> in the record can only be the row's last token; and for a
  token \<open>S\<close> at position \<open>i\<close> whose header column is bound to the field \<open>k\<close>
  (where no later header token has the same lower-cased name, and \<open>k\<close> is not
  \<open>__proto__\<close>), the record's \<open>k\<close> is the token after the \<open>S\<close> when there is one,
  and \<open>S\<close> itself when the \<open>S\<close> is the last token.
\<close>

theorem parsePsTableOutput_skips_S:
  assumes "parsePsTableOutput output desiredFields = Inr records"
    and "r < length records"
    and "rowData = split_ws (dataRows output ! r)"
    and "cols = headerCols output"
    and "\<not> adjacentS rowData"
  shows "(\<forall>k. (records ! r) k = Some ''S'' \<longrightarrow> rowData \<noteq> [] \<and> last rowData = ''S'')
     \<and> (\<forall>i k. i < length rowData \<and> rowData ! i = ''S''
            \<and> i < length cols \<and> toLowerCase (cols ! i) = k \<and> k \<in> set desiredFields
            \<and> k \<notin> set (map toLowerCase (drop (i + 1) cols)) \<and> k \<noteq> ''__proto__''
          \<longrightarrow> (records ! r) k
                = Some (if i + 1 < length rowData then rowData ! (i + 1) else ''S''))"
proof -
  let ?m = "headerMapping output desiredFields"
  have rec: "records ! r = rowLoop ?m rowData 0 Map.empty"
    using records_nth(2)[OF assms(1,2)] assms(3) by simp
  have stored: "\<forall>k. (records ! r) k = Some ''S'' \<longrightarrow> rowData \<noteq> [] \<and> last rowData = ''S''"
  proof (intro allI impI)
    fix k
    assume "(records ! r) k = Some ''S''"
    then show "rowData \<noteq> [] \<and> last rowData = ''S''"
      using rowLoop_stored_S[OF assms(5), of ?m 0 Map.empty k] rec by simp
  qed
  have skipped: "\<forall>i k. i < length rowData \<and> rowData ! i = ''S''
            \<and> i < length cols \<and> toLowerCase (cols ! i) = k \<and> k \<in> set desiredFields
            \<and> k \<notin> set (map toLowerCase (drop (i + 1) cols)) \<and> k \<noteq> ''__proto__''
          \<longrightarrow> (records ! r) k
                = Some (if i + 1 < length rowData then rowData ! (i + 1) else ''S'')"
  proof (intro allI impI)
    fix i k
    assume a: "i < length rowData \<and> rowData ! i = ''S''
            \<and> i < length cols \<and> toLowerCase (cols ! i) = k \<and> k \<in> set desiredFields
            \<and> k \<notin> set (map toLowerCase (drop (i + 1) cols)) \<and> k \<noteq> ''__proto__''"
    have mi: "?m i = Some k"
      using a assms(4) by (simp add: headerMapping_apply)
    have later: "\<forall>j. i < j \<and> j < length rowData \<longrightarrow> ?m j \<noteq> Some k"
    proof (intro allI impI notI)
      fix j
      assume j: "i < j \<and> j < length rowData" and mj: "?m j = Some k"
      from mj have jl: "j < length cols" and "toLowerCase (cols ! j) = k"
        using assms(4) by (auto simp: headerMapping_apply split: if_splits)
      moreover have "cols ! j = drop (i + 1) cols ! (j - (i + 1))"
        using j jl by simp
      moreover have "j - (i + 1) < length (drop (i + 1) cols)"
        using j jl by (auto intro: diff_less_mono)
      ultimately have "k \<in> set (map toLowerCase (drop (i + 1) cols))"
        by (metis (no_types, lifting) image_eqI nth_mem set_map)
      with a show False by simp
    qed
    show "(records ! r) k = Some (if i + 1 < length rowData then rowData ! (i + 1) else ''S'')"
      using rowLoop_reaches_S[OF assms(5) _ _ _ mi _ later, of 0 Map.empty] a rec by simp
  qed
  show ?thesis using stored skipped by (rule conjI)
qed

text \<open>
  The example of the specification: with the header \<open>USER PID NAME\<close>, the row
  \<open>root 123 S com.example.app\<close> gives \<open>name = com.example.app\<close>.
\<close>

theorem parsePsTableOutput_skips_S_witness:
  "\<not> adjacentS (split_ws ''root 123 S com.example.app'')
   \<and> (\<exists>records.
        parsePsTableOutput (joinLines [''USER PID NAME'', ''root 123 S com.example.app''])
          [''user'', ''pid'', ''name''] = Inr records
        \<and> 0 < length records
        \<and> (records ! 0) ''name'' = Some ''com.example.app'')"
proof -
  let ?X = "joinLines [''USER PID NAME'', ''root 123 S com.example.app'']"
  let ?D = "[''user'', ''pid'', ''name'']"
  let ?records = "map (rowBody (headerMapping ?X ?D)) (dataRows ?X)"
  have rows: "dataRows ?X = [''root 123 S com.example.app'']" by code_simp
  have cols: "headerCols ?X = [''USER'', ''PID'', ''NAME'']" by code_simp
  have toks: "split_ws ''root 123 S com.example.app'' = [''root'', ''123'', ''S'', ''com.example.app'']"
    by code_simp
  have low: "toLowerCase ''NAME'' = ''name''" by code_simp
  have p: "parsePsTableOutput ?X ?D = Inr ?records" by (rule parse_eq)
  have len: "0 < length ?records" unfolding rows by simp
  have na: "\<not> adjacentS (split_ws (dataRows ?X ! 0))" unfolding rows by (simp add: toks)
  have "\<forall>i k. i < length (split_ws (dataRows ?X ! 0)) \<and> split_ws (dataRows ?X ! 0) ! i = ''S''
            \<and> i < length (headerCols ?X) \<and> toLowerCase (headerCols ?X ! i) = k \<and> k \<in> set ?D
            \<and> k \<notin> set (map toLowerCase (drop (i + 1) (headerCols ?X))) \<and> k \<noteq> ''__proto__''
          \<longrightarrow> (?records ! 0) k
                = Some (if i + 1 < length (split_ws (dataRows ?X ! 0))
                        then split_ws (dataRows ?X ! 0) ! (i + 1) else ''S'')"
    using parsePsTableOutput_skips_S[OF p len refl refl na] by blast
  from this[rule_format, of 2 "''name''"]
  have "(?records ! 0) ''name'' = Some ''com.example.app''"
    unfolding rows cols by (simp add: toks low)
  moreover have "\<not> adjacentS (split_ws ''root 123 S com.example.app'')"
    using na unfolding rows by simp
  ultimately show ?thesis using p len by blast
qed

text \<open>
  C1 as stated fails. The skip consumes one token only: in \<open>root S S x\<close> the
  second \<open>S\<close> is not the last token, yet it is stored as the value of \<open>pid\<close>,
  and \<open>name\<close> (the column of its position) gets nothing. With a header that
  names two columns alike the later column overwrites the value taken after the
  \<open>S\<close>, and the field \<open>__proto__\<close> never becomes a key.
\<close>

theorem parsePsTableOutput_skips_S_counterexample:
  "fieldsOf [''user'', ''pid'', ''name'']
     (parsePsTableOutput (joinLines [''USER PID NAME'', ''root S S x'']) [''user'', ''pid'', ''name''])
     = Inr [[Some ''root'', Some ''S'', None]]
   \<and> fieldsOf [''name'', ''x'']
       (parsePsTableOutput (joinLines [''NAME X NAME'', ''S a b'']) [''name'', ''x''])
     = Inr [[Some ''b'', None]]
   \<and> fieldsOf [''__proto__'']
       (parsePsTableOutput (joinLines [''__PROTO__ PID'', ''S a b'']) [''__proto__''])
     = Inr [[None]]"
  by code_simp

text \<open>
  C3, as amended. A name \<open>d\<close> is bound to a header column exactly when it is a
  desired field and equals the lower-cased form of a token of
  \<open>header.split(/\s+/)\<close>; put differently, when it is a desired field that is
  already in lower case and matches some header token case-insensitively. Every
  key of a record is a desired field that matches a header token
  case-insensitively, so a desired field that matches no header token never
  appears as a key.
\<close>

theorem headerMapping_binds_lowercased:
  "((\<exists>i. headerMapping output desiredFields i = Some d) \<longleftrightarrow>
      d \<in> set desiredFields \<and> toLowerCase d = d
        \<and> (\<exists>t\<in>set (headerCols output). toLowerCase t = toLowerCase d))
   \<and> (\<forall>records r k.
         parsePsTableOutput output desiredFields = Inr records \<and> r < length records
           \<and> k \<in> dom (records ! r)
         \<longrightarrow> k \<in> set desiredFields
               \<and> (\<exists>t\<in>set (headerCols output). toLowerCase t = toLowerCase k))"
proof (rule conjI)
  show "(\<exists>i. headerMapping output desiredFields i = Some d) \<longleftrightarrow>
      d \<in> set desiredFields \<and> toLowerCase d = d
        \<and> (\<exists>t\<in>set (headerCols output). toLowerCase t = toLowerCase d)"
  proof
    assume "\<exists>i. headerMapping output desiredFields i = Some d"
    then obtain i where i: "i < length (headerCols output)"
        "toLowerCase (headerCols output ! i) = d" "d \<in> set desiredFields"
      by (auto simp: headerMapping_apply split: if_splits)
    then have "toLowerCase d = d" using toLowerCase_idem by blast
    moreover have "headerCols output ! i \<in> set (headerCols output)" using i by simp
    ultimately show "d \<in> set desiredFields \<and> toLowerCase d = d
        \<and> (\<exists>t\<in>set (headerCols output). toLowerCase t = toLowerCase d)"
      using i by metis
  next
    assume a: "d \<in> set desiredFields \<and> toLowerCase d = d
        \<and> (\<exists>t\<in>set (headerCols output). toLowerCase t = toLowerCase d)"
    then obtain i where "i < length (headerCols output)" "toLowerCase (headerCols output ! i) = d"
      by (metis in_set_conv_nth)
    with a have "headerMapping output desiredFields i = Some d"
      by (simp add: headerMapping_apply)
    then show "\<exists>i. headerMapping output desiredFields i = Some d" ..
  qed
next
  show "\<forall>records r k.
         parsePsTableOutput output desiredFields = Inr records \<and> r < length records
           \<and> k \<in> dom (records ! r)
         \<longrightarrow> k \<in> set desiredFields
               \<and> (\<exists>t\<in>set (headerCols output). toLowerCase t = toLowerCase k)"
  proof (intro allI impI)
  fix records r k
  assume a: "parsePsTableOutput output desiredFields = Inr records \<and> r < length records
      \<and> k \<in> dom (records ! r)"
  let ?rowData = "split_ws (dataRows output ! r)"
  from a obtain v where "rowLoop (headerMapping output desiredFields) ?rowData 0 Map.empty k = Some v"
    using records_nth(2)[of "output" desiredFields records r] by auto
  from rowLoop_key[OF this]
  obtain j where "headerMapping output desiredFields j = Some k"
    by auto
  then have j: "j < length (headerCols output)" "toLowerCase (headerCols output ! j) = k"
      "k \<in> set desiredFields"
    by (auto simp: headerMapping_apply split: if_splits)
  then have "headerCols output ! j \<in> set (headerCols output)" by simp
  moreover have "toLowerCase (headerCols output ! j) = toLowerCase k"
    using j toLowerCase_idem by metis
  ultimately show "k \<in> set desiredFields
      \<and> (\<exists>t\<in>set (headerCols output). toLowerCase t = toLowerCase k)"
    using j by blast
  qed
qed

text \<open>
  With the header \<open>USER  PID Name\<close> and the desired fields \<open>name\<close>, \<open>tty\<close> and \<open>Pid\<close>:
  \<open>name\<close> is bound and is a key of the record, \<open>tty\<close> is not bound, and neither is
  \<open>Pid\<close>, which is not in lower case.
\<close>

theorem headerMapping_binds_lowercased_witness:
  "(\<exists>i. headerMapping (joinLines [''USER  PID Name'', ''root 1 app'']) [''name'', ''tty'', ''Pid''] i
          = Some ''name'')
   \<and> \<not> (\<exists>i. headerMapping (joinLines [''USER  PID Name'', ''root 1 app'']) [''name'', ''tty'', ''Pid''] i
          = Some ''tty'')
   \<and> \<not> (\<exists>i. headerMapping (joinLines [''USER  PID Name'', ''root 1 app'']) [''name'', ''tty'', ''Pid''] i
          = Some ''Pid'')
   \<and> (\<exists>records.
         parsePsTableOutput (joinLines [''USER  PID Name'', ''root 1 app'']) [''name'', ''tty'', ''Pid'']
           = Inr records
         \<and> 0 < length records \<and> ''name'' \<in> dom (records ! 0) \<and> ''name'' \<in> set [''name'', ''tty'', ''Pid''])"
proof -
  let ?X = "joinLines [''USER  PID Name'', ''root 1 app'']"
  let ?D = "[''name'', ''tty'', ''Pid'']"
  let ?records = "map (rowBody (headerMapping ?X ?D)) (dataRows ?X)"
  have cols: "headerCols ?X = [''USER'', ''PID'', ''Name'']" by code_simp
  have rows: "dataRows ?X = [''root 1 app'']" by code_simp
  have low: "toLowerCase ''USER'' = ''user''" "toLowerCase ''PID'' = ''pid''"
    "toLowerCase ''Name'' = ''name''" "toLowerCase ''name'' = ''name''"
    "toLowerCase ''tty'' = ''tty''" "toLowerCase ''Pid'' = ''pid''"
    by code_simp+
  have a: "\<exists>i. headerMapping ?X ?D i = Some ''name''"
    using headerMapping_binds_lowercased[of ?X ?D "''name''"] unfolding cols by (simp add: low)
  have b: "\<not> (\<exists>i. headerMapping ?X ?D i = Some ''tty'')"
    using headerMapping_binds_lowercased[of ?X ?D "''tty''"] unfolding cols by (simp add: low)
  have c: "\<not> (\<exists>i. headerMapping ?X ?D i = Some ''Pid'')"
    using headerMapping_binds_lowercased[of ?X ?D "''Pid''"] unfolding cols by (simp add: low)
  have p: "parsePsTableOutput ?X ?D = Inr ?records" by (rule parse_eq)
  have len: "0 < length ?records" unfolding rows by simp
  have "rowBody (headerMapping ?X ?D) ''root 1 app'' ''name'' = Some ''app''" by code_simp
  then have d: "''name'' \<in> dom (?records ! 0)" unfolding rows by auto
  have e: "''name'' \<in> set ?D"
    using headerMapping_binds_lowercased[of ?X ?D "''name''"] p len d by blast
  show ?thesis using a b c p len d e by blast
qed

text \<open>
  C3 as stated fails: the desired field \<open>User\<close> matches the header token \<open>USER\<close>
  case-insensitively, yet no column is bound to it and no record has it as a
  key, in any spelling. The code compares the lower-cased header token with the
  desired name as the caller wrote it.
\<close>

theorem headerMapping_binds_lowercased_counterexample:
  "''USER'' \<in> set (headerCols (joinLines [''USER PID'', ''root 1'']))
   \<and> toLowerCase ''USER'' = toLowerCase ''User''
   \<and> map (headerMapping (joinLines [''USER PID'', ''root 1'']) [''User''])
         [0..<length (headerCols (joinLines [''USER PID'', ''root 1'']))] = [None, None]
   \<and> fieldsOf [''User'', ''user'', ''USER'']
         (parsePsTableOutput (joinLines [''USER PID'', ''root 1'']) [''User''])
       = Inr [[None, None, None]]"
  by code_simp

text \<open>
  C4. \<open>parsePsTableOutput\<close> returns a list of records for every output string and
  every list of desired fields (the throwing branch is never taken); every key
  of a record belongs to a header column whose index is below the number of
  tokens of its row, so a row shorter than the header leaves out the fields of
  the missing trailing columns; and when no header token is a desired field,
  the result is one record without keys per non-blank data line.
\<close>

theorem parsePsTableOutput_total:
  "(\<exists>records. parsePsTableOutput output desiredFields = Inr records)
   \<and> (\<forall>records r k.
         parsePsTableOutput output desiredFields = Inr records \<and> r < length records
           \<and> k \<in> dom (records ! r)
         \<longrightarrow> (\<exists>i. i < length (split_ws (dataRows output ! r)) \<and> i < length (headerCols output)
                \<and> toLowerCase (headerCols output ! i) = k))
   \<and> ((\<forall>t\<in>set (headerCols output). toLowerCase t \<notin> set desiredFields)
         \<longrightarrow> parsePsTableOutput output desiredFields
               = Inr (replicate (length (dataRows output)) Map.empty))"
proof (intro conjI allI impI)
  show "\<exists>records. parsePsTableOutput output desiredFields = Inr records"
    by (simp add: parse_eq)
next
  fix records r k
  assume a: "parsePsTableOutput output desiredFields = Inr records \<and> r < length records
      \<and> k \<in> dom (records ! r)"
  let ?rowData = "split_ws (dataRows output ! r)"
  from a obtain v where "rowLoop (headerMapping output desiredFields) ?rowData 0 Map.empty k = Some v"
    using records_nth(2)[of "output" desiredFields records r] by auto
  from rowLoop_key[OF this]
  obtain j where "j < length ?rowData" "headerMapping output desiredFields j = Some k"
    by auto
  then show "\<exists>i. i < length ?rowData \<and> i < length (headerCols output)
      \<and> toLowerCase (headerCols output ! i) = k"
    by (auto simp: headerMapping_apply split: if_splits)
next
  assume a: "\<forall>t\<in>set (headerCols output). toLowerCase t \<notin> set desiredFields"
  have "headerMapping output desiredFields j = None" for j
    using a by (simp add: headerMapping_apply)
  then have "rowBody (headerMapping output desiredFields) = (\<lambda>row. Map.empty)"
    by (intro ext) (simp add: rowBody_def rowLoop_unbound)
  then show "parsePsTableOutput output desiredFields
      = Inr (replicate (length (dataRows output)) Map.empty)"
    by (simp add: parse_eq map_replicate_const)
qed

text \<open>
  The empty output parses; \<open>root 7\<close> under \<open>USER PID NAME\<close> has no \<open>name\<close>; a header
  without desired fields gives empty records, none for the blank line.
\<close>

theorem parsePsTableOutput_total_witness:
  "(\<exists>records. parsePsTableOutput [] [] = Inr records)
   \<and> fieldsOf [''user'', ''pid'', ''name'']
        (parsePsTableOutput (joinLines [''USER PID NAME'', ''root 7'']) [''user'', ''pid'', ''name''])
      = Inr [[Some ''root'', Some ''7'', None]]
   \<and> (\<exists>i. i < length (split_ws ''root 7'') \<and> i < length [''USER'', ''PID'', ''NAME'']
         \<and> toLowerCase ([''USER'', ''PID'', ''NAME''] ! i) = ''pid'')
   \<and> parsePsTableOutput (joinLines [''A B'', ''x y'', '' '', ''z'']) [''user'']
      = Inr [Map.empty, Map.empty]"
proof -
  let ?X = "joinLines [''USER PID NAME'', ''root 7'']"
  let ?D = "[''user'', ''pid'', ''name'']"
  let ?records = "map (rowBody (headerMapping ?X ?D)) (dataRows ?X)"
  let ?Y = "joinLines [''A B'', ''x y'', '' '', ''z'']"
  have t1: "\<exists>records. parsePsTableOutput [] [] = Inr records"
    using parsePsTableOutput_total[of "[]" "[]"] by blast
  have t2: "fieldsOf ?D (parsePsTableOutput ?X ?D) = Inr [[Some ''root'', Some ''7'', None]]"
    by code_simp
  have cols: "headerCols ?X = [''USER'', ''PID'', ''NAME'']" by code_simp
  have rows: "dataRows ?X = [''root 7'']" by code_simp
  have p: "parsePsTableOutput ?X ?D = Inr ?records" by (rule parse_eq)
  have len: "0 < length ?records" unfolding rows by simp
  have "rowBody (headerMapping ?X ?D) ''root 7'' ''pid'' = Some ''7''" by code_simp
  then have d: "''pid'' \<in> dom (?records ! 0)" unfolding rows by auto
  have "\<exists>i. i < length (split_ws (dataRows ?X ! 0)) \<and> i < length (headerCols ?X)
      \<and> toLowerCase (headerCols ?X ! i) = ''pid''"
    using parsePsTableOutput_total[of ?X ?D] p len d by blast
  then have t3: "\<exists>i. i < length (split_ws ''root 7'') \<and> i < length [''USER'', ''PID'', ''NAME'']
         \<and> toLowerCase ([''USER'', ''PID'', ''NAME''] ! i) = ''pid''"
    unfolding rows cols by simp
  have colsY: "headerCols ?Y = [''A'', ''B'']" by code_simp
  have rowsY: "dataRows ?Y = [''x y'', ''z'']" by code_simp
  have lowY: "toLowerCase ''A'' = ''a''" "toLowerCase ''B'' = ''b''" by code_simp+
  have "\<forall>t\<in>set (headerCols ?Y). toLowerCase t \<notin> set [''user'']"
    unfolding colsY by (simp add: lowY)
  then have "parsePsTableOutput ?Y [''user'']
      = Inr (replicate (length (dataRows ?Y)) Map.empty)"
    using parsePsTableOutput_total[of ?Y "[''user'']"] by blast
  then have t4: "parsePsTableOutput ?Y [''user''] = Inr [Map.empty, Map.empty]"
    unfolding rowsY by (simp add: numeral_2_eq_2)
  show ?thesis using t1 t2 t3 t4 by blast
qed

text \<open>
  C10. A line that begins with white space splits into an empty first token
  followed by the tokens of the line without its indentation. For a data row the
  loop therefore runs over the real tokens with every column moved one to the
  right (column 0, when bound, gets the empty string); for a header the token
  \<open>j\<close> of the unindented header is bound as column \<open>j + 1\<close>.
\<close>

theorem leading_whitespace_shifts_columns:
  assumes "isWhiteSpace c"
  shows "split_ws (c # cs) = '''' # split_ws (dropWhile isWhiteSpace cs)
     \<and> rowBody colMapping (c # cs)
         = rowLoop (\<lambda>j. colMapping (j + 1)) (split_ws (dropWhile isWhiteSpace cs)) 0
             (case colMapping 0 of None \<Rightarrow> Map.empty | Some k \<Rightarrow> obj_set Map.empty k '''')
     \<and> (\<forall>j. colLoop (split_ws (c # cs)) desiredFields 0 Map.empty (j + 1)
             = colLoop (split_ws (dropWhile isWhiteSpace cs)) desiredFields 0 Map.empty j)"
proof -
  have sp: "split_ws (c # cs) = '''' # split_ws (dropWhile isWhiteSpace cs)"
    using assms by (simp add: split_ws_def)
  let ?ts = "split_ws (dropWhile isWhiteSpace cs)"
  have "rowLoop colMapping ('''' # ?ts) 0 Map.empty
      = rowLoop colMapping ('''' # ?ts) (Suc 0)
          (case colMapping 0 of None \<Rightarrow> Map.empty | Some k \<Rightarrow> obj_set Map.empty k '''')"
    using rowLoop_step[of 0 "'''' # ?ts" colMapping Map.empty]
    by (simp cong: option.case_cong)
  then have "rowBody colMapping (c # cs)
      = rowLoop (\<lambda>j. colMapping (j + 1)) ?ts 0
          (case colMapping 0 of None \<Rightarrow> Map.empty | Some k \<Rightarrow> obj_set Map.empty k '''')"
    by (simp add: rowBody_def sp rowLoop_shift)
  moreover have "colLoop (split_ws (c # cs)) desiredFields 0 Map.empty (j + 1)
      = colLoop ?ts desiredFields 0 Map.empty j" for j
    by (simp add: sp colLoop_apply)
  ultimately show ?thesis using sp by blast
qed

text \<open>
  Under the header \<open>USER PID NAME\<close> the indented row \<open>root 123 app\<close> gives
  \<open>user\<close> the empty string, \<open>pid = root\<close> and \<open>name = 123\<close>.
\<close>

theorem leading_whitespace_shifts_columns_witness:
  "isWhiteSpace CHR '' ''
   \<and> split_ws ''  root 123 app'' = ['''', ''root'', ''123'', ''app'']
   \<and> rowBody (headerMapping ''USER PID NAME'' [''user'', ''pid'', ''name'']) ''  root 123 app'' ''pid''
      = Some ''root''
   \<and> colLoop (split_ws '' USER PID'') [''user'', ''pid''] 0 Map.empty 1 = Some ''user''
   \<and> fieldsOf [''user'', ''pid'', ''name'']
        (parsePsTableOutput (joinLines [''USER PID NAME'', ''  root 123 app''])
           [''user'', ''pid'', ''name''])
      = Inr [[Some '''', Some ''root'', Some ''123'']]"
proof -
  let ?m = "headerMapping ''USER PID NAME'' [''user'', ''pid'', ''name'']"
  have ws: "isWhiteSpace CHR '' ''" by (simp add: isWhiteSpace_def)
  note w = leading_whitespace_shifts_columns[OF ws]
  have e1: "split_ws (dropWhile isWhiteSpace '' root 123 app'') = [''root'', ''123'', ''app'']"
    by code_simp
  have t2: "split_ws ''  root 123 app'' = ['''', ''root'', ''123'', ''app'']"
    using w[of "'' root 123 app''"] e1 by (simp only:)
  have e2: "rowLoop (\<lambda>j. ?m (j + 1)) (split_ws (dropWhile isWhiteSpace '' root 123 app'')) 0
       (case ?m 0 of None \<Rightarrow> Map.empty | Some k \<Rightarrow> obj_set Map.empty k '''') ''pid''
       = Some ''root''"
    by code_simp
  have "rowBody ?m ''  root 123 app''
      = rowLoop (\<lambda>j. ?m (j + 1)) (split_ws (dropWhile isWhiteSpace '' root 123 app'')) 0
       (case ?m 0 of None \<Rightarrow> Map.empty | Some k \<Rightarrow> obj_set Map.empty k '''')"
    using w[of "'' root 123 app''" ?m] by (rule conjunct2[THEN conjunct1])
  then have t3: "rowBody ?m ''  root 123 app'' ''pid'' = Some ''root''"
    using e2 by (simp only:)
  have e3: "colLoop (split_ws (dropWhile isWhiteSpace ''USER PID'')) [''user'', ''pid''] 0 Map.empty 0
      = Some ''user''"
    by code_simp
  have "\<forall>j. colLoop (split_ws '' USER PID'') [''user'', ''pid''] 0 Map.empty (j + 1)
      = colLoop (split_ws (dropWhile isWhiteSpace ''USER PID'')) [''user'', ''pid''] 0 Map.empty j"
    using w[of "''USER PID''" Map.empty "[''user'', ''pid'']"] by (rule conjunct2[THEN conjunct2])
  from this[rule_format, of 0]
  have t4: "colLoop (split_ws '' USER PID'') [''user'', ''pid''] 0 Map.empty 1 = Some ''user''"
    using e3 by (simp only: add_0 One_nat_def[symmetric])
  have t5: "fieldsOf [''user'', ''pid'', ''name'']
        (parsePsTableOutput (joinLines [''USER PID NAME'', ''  root 123 app''])
           [''user'', ''pid'', ''name''])
      = Inr [[Some '''', Some ''root'', Some ''123'']]"
    by code_simp
  show ?thesis using ws t2 t3 t4 t5 by (intro conjI)
qed

section \<open>The claims about the Adb class\<close>

text \<open>
  C8. \<open>getDeviceModel\<close> reports \<open>emulator\<close> whenever the looked-up property value
  (the trimmed output of \<open>getprop ro.product.model\<close>) is exactly \<open>sdk\<close>, returns
  every other value unchanged, and fails as the command fails.
\<close>

theorem getDeviceModel_sdk_is_emulator:
  "(\<forall>v. getAndroidProp adb device ''ro.product.model'' = Inr v
        \<longrightarrow> getDeviceModel adb device = Inr (if v = ''sdk'' then ''emulator'' else v))
   \<and> (\<forall>out. runShortAdbCommand adb device [''shell'', ''getprop'', ''ro.product.model''] = Inr out
        \<longrightarrow> getAndroidProp adb device ''ro.product.model'' = Inr (trim out)
            \<and> getDeviceModel adb device = Inr (if trim out = ''sdk'' then ''emulator'' else trim out))
   \<and> (\<forall>e. runShortAdbCommand adb device [''shell'', ''getprop'', ''ro.product.model''] = Inl e
        \<longrightarrow> getDeviceModel adb device = Inl e)"
  by (simp add: getDeviceModel_def getAndroidProp_def)

text \<open>
  The output \<open>sdk\<close> followed by a line feed is an emulator; \<open>Pixel 3\<close> and \<open>SDK\<close>
  pass through; a failing command fails the call.
\<close>

theorem getDeviceModel_sdk_is_emulator_witness:
  "getDeviceModel (stubBridge (\<lambda>args. Inr ''sdk\<newline>'') (Inr Map.empty)) ''emulator-5554''
     = Inr ''emulator''
   \<and> getDeviceModel (stubBridge (\<lambda>args. Inr ''Pixel 3 '') (Inr Map.empty)) '''' = Inr ''Pixel 3''
   \<and> getDeviceModel (stubBridge (\<lambda>args. Inr ''SDK'') (Inr Map.empty)) '''' = Inr ''SDK''
   \<and> getDeviceModel (stubBridge (\<lambda>args. Inl (Failure ''offline'')) (Inr Map.empty)) ''''
     = Inl (Failure ''offline'')"
proof -
  let ?a = "stubBridge (\<lambda>args. Inr ''sdk\<newline>'') (Inr Map.empty)"
  let ?b = "stubBridge (\<lambda>args. Inr ''Pixel 3 '') (Inr Map.empty)"
  let ?c = "stubBridge (\<lambda>args. Inr ''SDK'') (Inr Map.empty)"
  let ?d = "stubBridge (\<lambda>args. Inl (Failure ''offline'')) (Inr Map.empty)"
  let ?args = "[''shell'', ''getprop'', ''ro.product.model'']"
  have ta: "trim ''sdk\<newline>'' = ''sdk''" by code_simp
  have tb: "trim ''Pixel 3 '' = ''Pixel 3''" by code_simp
  have tc: "trim ''SDK'' = ''SDK''" by code_simp
  have ra: "runShortAdbCommand ?a ''emulator-5554'' ?args = Inr ''sdk\<newline>''"
    unfolding stubBridge_def by (simp only: debugBridge.simps)
  have rb: "runShortAdbCommand ?b '''' ?args = Inr ''Pixel 3 ''"
    unfolding stubBridge_def by (simp only: debugBridge.simps)
  have rc: "runShortAdbCommand ?c '''' ?args = Inr ''SDK''"
    unfolding stubBridge_def by (simp only: debugBridge.simps)
  have rd: "runShortAdbCommand ?d '''' ?args = Inl (Failure ''offline'')"
    unfolding stubBridge_def by (simp only: debugBridge.simps)
  have a: "getDeviceModel ?a ''emulator-5554'' = Inr ''emulator''"
    using getDeviceModel_sdk_is_emulator[of ?a "''emulator-5554''"] ra
    by (simp add: ta)
  have b: "getDeviceModel ?b '''' = Inr ''Pixel 3''"
    using getDeviceModel_sdk_is_emulator[of ?b "''''"] rb
    by (simp add: tb)
  have c: "getDeviceModel ?c '''' = Inr ''SDK''"
    using getDeviceModel_sdk_is_emulator[of ?c "''''"] rc
    by (simp add: tc)
  have d: "getDeviceModel ?d '''' = Inl (Failure ''offline'')"
    using getDeviceModel_sdk_is_emulator[of ?d "''''"] rd by simp
  show ?thesis using a b c d by (intro conjI)
qed

text \<open>
  C5. For every device and package name, \<open>isPackageInstalled\<close> returns true
  exactly when the list returned by \<open>getInstalledPackages\<close> for that device holds
  a string equal to the package name (and false when it holds none); it fails
  as \<open>getInstalledPackages\<close> fails.
\<close>

theorem isPackageInstalled_iff_listed:
  "(\<forall>packages. getInstalledPackages adb device = Inr packages
        \<longrightarrow> isPackageInstalled adb device pkg = Inr (pkg \<in> set packages))
   \<and> (\<forall>e. getInstalledPackages adb device = Inl e
        \<longrightarrow> isPackageInstalled adb device pkg = Inl e)
   \<and> (isPackageInstalled adb device pkg = Inr True
        \<longleftrightarrow> (\<exists>packages. getInstalledPackages adb device = Inr packages \<and> pkg \<in> set packages))"
  by (cases "getInstalledPackages adb device")
     (simp_all add: isPackageInstalled_def await_def arr_includes_def)

text \<open>
  With two listed packages, \<open>com.example.app\<close> is installed and its proper prefix
  \<open>com.example\<close> is not.
\<close>

theorem isPackageInstalled_iff_listed_witness:
  "getInstalledPackages
       (stubBridge (\<lambda>args. Inr ''package:com.android.shell\<newline>package:com.example.app\<newline>'')
          (Inr Map.empty)) ''''
     = Inr [''com.android.shell'', ''com.example.app'']
   \<and> isPackageInstalled
       (stubBridge (\<lambda>args. Inr ''package:com.android.shell\<newline>package:com.example.app\<newline>'')
          (Inr Map.empty)) '''' ''com.example.app''
     = Inr True
   \<and> isPackageInstalled
       (stubBridge (\<lambda>args. Inr ''package:com.android.shell\<newline>package:com.example.app\<newline>'')
          (Inr Map.empty)) '''' ''com.example''
     = Inr False
   \<and> isPackageInstalled (stubBridge (\<lambda>args. Inl (Failure ''offline'')) (Inr Map.empty)) '''' ''x''
     = Inl (Failure ''offline'')"
proof -
  let ?a = "stubBridge (\<lambda>args. Inr ''package:com.android.shell\<newline>package:com.example.app\<newline>'')
          (Inr Map.empty)"
  let ?d = "stubBridge (\<lambda>args. Inl (Failure ''offline'')) (Inr Map.empty)"
  have g: "getInstalledPackages ?a '''' = Inr [''com.android.shell'', ''com.example.app'']"
    by code_simp
  have gd: "getInstalledPackages ?d '''' = Inl (Failure ''offline'')"
    by code_simp
  have a: "isPackageInstalled ?a '''' ''com.example.app'' = Inr True"
    using isPackageInstalled_iff_listed[of ?a "''''" "''com.example.app''"] g by simp
  have b: "isPackageInstalled ?a '''' ''com.example'' = Inr False"
    using isPackageInstalled_iff_listed[of ?a "''''" "''com.example''"] g by simp
  have c: "isPackageInstalled ?d '''' ''x'' = Inl (Failure ''offline'')"
    using isPackageInstalled_iff_listed[of ?d "''''" "''x''"] gd by simp
  show ?thesis using g a b c by (intro conjI)
qed

text \<open>What \<open>getInstalledPackages\<close> returns, from the output of the command.\<close>

lemma getInstalledPackages_eq:
  "runShortAdbCommand adb device [''shell'', ''pm'', ''list'', ''packages''] = Inr stdout
   \<Longrightarrow> getInstalledPackages adb device = Inr (map (drop 8) (split_ws (trim stdout)))"
  by (simp add: getInstalledPackages_def await_def substring_def eval_nat_numeral)

text \<open>
  C9. \<open>getInstalledPackages\<close> removes the first 8 characters of every
  white-space separated token of the trimmed output, whatever the token starts
  with; for an output that is empty or white space only it returns the list that
  holds the empty string alone, and \<open>isPackageInstalled\<close> is then true for the
  empty package name.
\<close>

theorem getInstalledPackages_drops_eight:
  "\<forall>stdout. runShortAdbCommand adb device [''shell'', ''pm'', ''list'', ''packages''] = Inr stdout
      \<longrightarrow> getInstalledPackages adb device = Inr (map (drop 8) (split_ws (trim stdout)))
          \<and> ((\<forall>c\<in>set stdout. isWhiteSpace c)
               \<longrightarrow> getInstalledPackages adb device = Inr ['''']
                   \<and> isPackageInstalled adb device '''' = Inr True)"
proof (intro allI impI conjI)
  fix stdout
  assume r: "runShortAdbCommand adb device [''shell'', ''pm'', ''list'', ''packages''] = Inr stdout"
  show "getInstalledPackages adb device = Inr (map (drop 8) (split_ws (trim stdout)))"
    by (rule getInstalledPackages_eq[OF r])
  assume "\<forall>c\<in>set stdout. isWhiteSpace c"
  then have "trim stdout = []" by (simp add: trim_eq_Nil_iff)
  then show e: "getInstalledPackages adb device = Inr ['''']"
    using getInstalledPackages_eq[OF r] by (simp add: split_ws_def)
  then show "isPackageInstalled adb device '''' = Inr True"
    by (simp add: isPackageInstalled_def await_def arr_includes_def)
qed

text \<open>
  The token \<open>com.example.app\<close> loses \<open>com.exam\<close>, the token \<open>short\<close> becomes empty;
  the empty output and the output of a space and a line feed list the empty
  package name.
\<close>

theorem getInstalledPackages_drops_eight_witness:
  "getInstalledPackages
       (stubBridge (\<lambda>args. Inr ''package:com.a\<newline>com.example.app\<newline>short'') (Inr Map.empty)) ''''
     = Inr [''com.a'', ''ple.app'', '''']
   \<and> getInstalledPackages (stubBridge (\<lambda>args. Inr '''') (Inr Map.empty)) '''' = Inr ['''']
   \<and> isPackageInstalled (stubBridge (\<lambda>args. Inr '''') (Inr Map.empty)) '''' '''' = Inr True
   \<and> getInstalledPackages (stubBridge (\<lambda>args. Inr '' \<newline>'') (Inr Map.empty)) '''' = Inr ['''']
   \<and> isPackageInstalled (stubBridge (\<lambda>args. Inr '' \<newline>'') (Inr Map.empty)) '''' '''' = Inr True"
proof -
  let ?a = "stubBridge (\<lambda>args. Inr ''package:com.a\<newline>com.example.app\<newline>short'') (Inr Map.empty)"
  let ?b = "stubBridge (\<lambda>args. Inr '''') (Inr Map.empty)"
  let ?c = "stubBridge (\<lambda>args. Inr '' \<newline>'') (Inr Map.empty)"
  let ?args = "[''shell'', ''pm'', ''list'', ''packages'']"
  have ra: "runShortAdbCommand ?a '''' ?args = Inr ''package:com.a\<newline>com.example.app\<newline>short''"
    by (simp add: stubBridge_def)
  have rb: "runShortAdbCommand ?b '''' ?args = Inr ''''"
    by (simp add: stubBridge_def)
  have rc: "runShortAdbCommand ?c '''' ?args = Inr '' \<newline>''"
    by (simp add: stubBridge_def)
  have ev: "map (drop 8) (split_ws (trim ''package:com.a\<newline>com.example.app\<newline>short''))
      = [''com.a'', ''ple.app'', '''']"
    by code_simp
  have wb: "\<forall>c\<in>set ''''. isWhiteSpace c" by simp
  have wc: "\<forall>c\<in>set '' \<newline>''. isWhiteSpace c" by (simp add: isWhiteSpace_def)
  have a: "getInstalledPackages ?a '''' = Inr [''com.a'', ''ple.app'', '''']"
    using getInstalledPackages_drops_eight[of ?a "''''", rule_format, OF ra, THEN conjunct1] ev
    by (simp only:)
  have b: "getInstalledPackages ?b '''' = Inr [''''] \<and> isPackageInstalled ?b '''' '''' = Inr True"
    using getInstalledPackages_drops_eight[of ?b "''''", rule_format, OF rb, THEN conjunct2] wb
    by blast
  have c: "getInstalledPackages ?c '''' = Inr [''''] \<and> isPackageInstalled ?c '''' '''' = Inr True"
    using getInstalledPackages_drops_eight[of ?c "''''", rule_format, OF rc, THEN conjunct2] wc
    by blast
  show ?thesis using a b c by (intro conjI) blast+
qed

text \<open>With \<open>unknownCB\<close> a lookup always yields a value: \<open>null\<close> for a failure.\<close>

lemma promise_catch_unknownCB:
  "promise_catch p unknownCB = Inr (case p of Inl e \<Rightarrow> Null | Inr v \<Rightarrow> Str v)"
  by (cases p) (simp_all add: promise_catch_def unknownCB_def)

text \<open>
  C6. When the base table is available, \<open>getDeviceInfo\<close> returns a table in which
  the keys \<open>android_version\<close>, \<open>manufacturer\<close> and \<open>brand\<close> are all set: to the
  looked-up value, or to \<open>null\<close> when the lookup fails. Every other key is as in
  the base table. \<open>getDeviceInfo\<close> fails only when \<open>getCommonDeviceInfo\<close> fails,
  and with the same error; a failed property lookup never fails it.
\<close>

theorem getDeviceInfo_sets_optional_keys:
  "(\<forall>base. getCommonDeviceInfo adb device = Inr base \<longrightarrow>
      (\<exists>info. getDeviceInfo adb device = Inr info
         \<and> info ''android_version''
             = Some (case getOSVersion adb device of Inl e \<Rightarrow> Null | Inr v \<Rightarrow> Str v)
         \<and> info ''manufacturer''
             = Some (case getManufacturer adb device of Inl e \<Rightarrow> Null | Inr v \<Rightarrow> Str v)
         \<and> info ''brand''
             = Some (case getBrand adb device of Inl e \<Rightarrow> Null | Inr v \<Rightarrow> Str v)
         \<and> (\<forall>k. k \<noteq> ''android_version'' \<and> k \<noteq> ''manufacturer'' \<and> k \<noteq> ''brand''
               \<longrightarrow> info k = base k)))
   \<and> (\<forall>e. getDeviceInfo adb device = Inl e \<longleftrightarrow> getCommonDeviceInfo adb device = Inl e)"
  by (cases "getCommonDeviceInfo adb device")
     (simp_all add: getDeviceInfo_def await_def promise_catch_unknownCB Let_def)

text \<open>
  The manufacturer lookup fails: the key \<open>manufacturer\<close> is \<open>null\<close>, the other two
  keys hold the trimmed output, and the base key \<open>name\<close> is kept.
\<close>

theorem getDeviceInfo_sets_optional_keys_witness:
  "\<exists>info.
     getDeviceInfo
       (stubBridge
          (\<lambda>args. if args = [''shell'', ''getprop'', ''ro.product.manufacturer'']
                   then Inl (Failure ''no such property'') else Inr '' 8.0\<newline>'')
          (Inr [''name'' \<mapsto> Str ''Pixel'']))
       ''emulator-5554'' = Inr info
     \<and> info ''android_version'' = Some (Str ''8.0'')
     \<and> info ''manufacturer'' = Some Null
     \<and> info ''brand'' = Some (Str ''8.0'')
     \<and> info ''name'' = Some (Str ''Pixel'')"
proof -
  let ?run = "\<lambda>args. if args = [''shell'', ''getprop'', ''ro.product.manufacturer'']
                   then Inl (Failure ''no such property'') else Inr '' 8.0\<newline>''"
  let ?a = "stubBridge ?run (Inr [''name'' \<mapsto> Str ''Pixel''])"
  let ?dev = "''emulator-5554''"
  have base: "getCommonDeviceInfo ?a ?dev = Inr [''name'' \<mapsto> Str ''Pixel'']"
    by (simp add: stubBridge_def)
  have t: "trim '' 8.0\<newline>'' = ''8.0''" by code_simp
  have os: "getOSVersion ?a ?dev = Inr ''8.0''"
    by (simp add: getOSVersion_def getAndroidProp_def stubBridge_def t)
  have man: "getManufacturer ?a ?dev = Inl (Failure ''no such property'')"
    by (simp add: getManufacturer_def getAndroidProp_def stubBridge_def)
  have br: "getBrand ?a ?dev = Inr ''8.0''"
    by (simp add: getBrand_def getAndroidProp_def stubBridge_def t)
  from getDeviceInfo_sets_optional_keys[of ?a ?dev, THEN conjunct1, rule_format, OF base]
  obtain info where i: "getDeviceInfo ?a ?dev = Inr info"
      "info ''android_version'' = Some (case getOSVersion ?a ?dev of Inl e \<Rightarrow> Null | Inr v \<Rightarrow> Str v)"
      "info ''manufacturer'' = Some (case getManufacturer ?a ?dev of Inl e \<Rightarrow> Null | Inr v \<Rightarrow> Str v)"
      "info ''brand'' = Some (case getBrand ?a ?dev of Inl e \<Rightarrow> Null | Inr v \<Rightarrow> Str v)"
      "\<forall>k. k \<noteq> ''android_version'' \<and> k \<noteq> ''manufacturer'' \<and> k \<noteq> ''brand''
               \<longrightarrow> info k = [''name'' \<mapsto> Str ''Pixel''] k"
    by blast
  have "info ''android_version'' = Some (Str ''8.0'')" using i(2) by (simp only: os sum.case)
  moreover have "info ''manufacturer'' = Some Null" using i(3) by (simp only: man sum.case)
  moreover have "info ''brand'' = Some (Str ''8.0'')" using i(4) by (simp only: br sum.case)
  moreover have "info ''name'' = Some (Str ''Pixel'')" using i(5)[rule_format, of "''name''"] by simp
  ultimately show ?thesis using i(1) by blast
qed

text \<open>
  The stream that \<open>getJavaProcesses\<close> turns into a promise: a scan that fails
  before its first message becomes the single error message; after \<open>catch\<close> the
  promise never rejects; and a first message decides the result alone.
\<close>

lemma catch_failed_scan:
  "obs_catch (Observable [] (Some e)) (\<lambda>error. obs_of (KindError error))
     = Observable [KindError e] None"
  by (simp add: obs_catch_def obs_of_def)

lemma toPromise_caught:
  "\<exists>r. toPromise (obs_map f (obs_take 1 (obs_catch src (\<lambda>error. obs_of (KindError error)))))
     = Inr r"
proof (cases src)
  case (Observable evs en)
  show ?thesis
  proof (cases en)
    case None
    then show ?thesis using Observable
      by (cases evs) (simp_all add: toPromise_def obs_map_def obs_take_def obs_catch_def)
  next
    case (Some e)
    then show ?thesis using Observable
      by (cases evs) (simp_all add: toPromise_def obs_map_def obs_take_def obs_catch_def obs_of_def)
  qed
qed

lemma toPromise_first:
  "toPromise (obs_map f (obs_take 1 (Observable (ev # evs) end))) = Inr (Some (f ev))"
  by (simp add: toPromise_def obs_map_def obs_take_def)

text \<open>
  C7. When the \<open>ps\<close> command has succeeded, \<open>getJavaProcesses\<close> never rejects,
  whatever the JDWP scan's stream does. When the scan fails (its stream ends
  with an error before a first message), \<open>catch\<close> replaces the error by one
  message of kind \<open>error\<close>, which gives the empty set of JDWP pids, and the call
  resolves with the empty list of processes.
\<close>

theorem getJavaProcesses_scan_failure:
  "\<forall>stdout. runShortAdbCommand adb device [''shell'', ''ps''] = Inr stdout \<longrightarrow>
     (\<exists>result. getJavaProcesses adb observeProcessRaw device = Inr result)
     \<and> (\<forall>e. observeProcessRaw (adbPath adb)
               ((if device \<noteq> '''' then [''-s'', device] else []) @ [''jdwp''])
             = Observable [] (Some e)
          \<longrightarrow> obs_catch (Observable [] (Some e)) (\<lambda>error. obs_of (KindError error))
                = Observable [KindError e] None
              \<and> jdwpPidsOf (KindError e) = {}
              \<and> getJavaProcesses adb observeProcessRaw device = Inr (Some []))"
proof (intro allI impI)
  fix stdout
  assume r: "runShortAdbCommand adb device [''shell'', ''ps''] = Inr stdout"
  let ?args = "(if device \<noteq> '''' then [''-s'', device] else []) @ [''jdwp'']"
  obtain allProcesses where p:
    "parsePsTableOutput (trim stdout) [''user'', ''pid'', ''name''] = Inr allProcesses"
    by (simp add: parse_eq)
  let ?f = "\<lambda>output. filter (\<lambda>row. has (jdwpPidsOf output) (row ''pid'')) allProcesses"
  have g: "getJavaProcesses adb observeProcessRaw device
      = toPromise (obs_map ?f (obs_take 1
          (obs_catch (observeProcessRaw (adbPath adb) ?args) (\<lambda>error. obs_of (KindError error)))))"
    using r p by (simp add: getJavaProcesses_def await_def Let_def)
  have ex: "\<exists>result. getJavaProcesses adb observeProcessRaw device = Inr result"
    unfolding g by (rule toPromise_caught)
  have fail: "obs_catch (Observable [] (Some e)) (\<lambda>error. obs_of (KindError error))
                = Observable [KindError e] None
              \<and> jdwpPidsOf (KindError e) = {}
              \<and> getJavaProcesses adb observeProcessRaw device = Inr (Some [])"
    if o: "observeProcessRaw (adbPath adb) ?args = Observable [] (Some e)" for e
  proof -
    have "getJavaProcesses adb observeProcessRaw device = Inr (Some (?f (KindError e)))"
      unfolding g o catch_failed_scan by (rule toPromise_first)
    moreover have "jdwpPidsOf (KindError e) = {}" by (simp add: jdwpPidsOf_def)
    moreover have "?f (KindError e) = []" by (simp add: jdwpPidsOf_def has_def split: option.splits)
    ultimately show ?thesis using catch_failed_scan by simp
  qed
  show "(\<exists>result. getJavaProcesses adb observeProcessRaw device = Inr result)
     \<and> (\<forall>e. observeProcessRaw (adbPath adb) ?args = Observable [] (Some e)
          \<longrightarrow> obs_catch (Observable [] (Some e)) (\<lambda>error. obs_of (KindError error))
                = Observable [KindError e] None
              \<and> jdwpPidsOf (KindError e) = {}
              \<and> getJavaProcesses adb observeProcessRaw device = Inr (Some []))"
    using ex fail by blast
qed

text \<open>
  The binary cannot be started: the call resolves with no process, although
  \<open>ps\<close> listed one.
\<close>

theorem getJavaProcesses_scan_failure_witness:
  "runShortAdbCommand
       (stubBridge (\<lambda>args. Inr ''USER PID NAME\<newline>u0_a1 123 S com.example.app'') (Inr Map.empty))
       ''emulator-5554'' [''shell'', ''ps'']
     = Inr ''USER PID NAME\<newline>u0_a1 123 S com.example.app''
   \<and> getJavaProcesses
       (stubBridge (\<lambda>args. Inr ''USER PID NAME\<newline>u0_a1 123 S com.example.app'') (Inr Map.empty))
       (\<lambda>path args. Observable [] (Some (Failure ''spawn adb ENOENT'')))
       ''emulator-5554''
     = Inr (Some [])"
proof -
  let ?a = "stubBridge (\<lambda>args. Inr ''USER PID NAME\<newline>u0_a1 123 S com.example.app'') (Inr Map.empty)"
  let ?o = "\<lambda>(path :: string) (args :: string list).
              (Observable [] (Some (Failure ''spawn adb ENOENT'')) :: processMessage observable)"
  have r: "runShortAdbCommand ?a ''emulator-5554'' [''shell'', ''ps'']
      = Inr ''USER PID NAME\<newline>u0_a1 123 S com.example.app''"
    by (simp add: stubBridge_def)
  have o: "?o (adbPath ?a)
        ((if ''emulator-5554'' \<noteq> '''' then [''-s'', ''emulator-5554''] else []) @ [''jdwp''])
      = Observable [] (Some (Failure ''spawn adb ENOENT''))"
    by (rule refl)
  from getJavaProcesses_scan_failure[of ?a "''emulator-5554''" ?o, rule_format, OF r,
      THEN conjunct2, rule_format, OF o]
  have "getJavaProcesses ?a ?o ''emulator-5554'' = Inr (Some [])" by blast
  then show ?thesis using r by blast
qed

text \<open>
  When the scan emits a message, \<open>take(1)\<close> completes the stream there: the
  first message alone decides the result, and an error after it is never seen.
\<close>

theorem getJavaProcesses_first_event:
  assumes "runShortAdbCommand adb device [''shell'', ''ps''] = Inr stdout"
    and "parsePsTableOutput (trim stdout) [''user'', ''pid'', ''name''] = Inr allProcesses"
    and "observeProcessRaw (adbPath adb)
           ((if device \<noteq> '''' then [''-s'', device] else []) @ [''jdwp''])
         = Observable (ev # evs) en"
  shows "getJavaProcesses adb observeProcessRaw device
     = Inr (Some (filter (\<lambda>row. has (jdwpPidsOf ev) (row ''pid'')) allProcesses))"
proof -
  have "obs_take 1 (obs_catch (Observable (ev # evs) en) (\<lambda>error. obs_of (KindError error)))
      = Observable [ev] None"
    by (cases en) (simp_all add: obs_take_def obs_catch_def)
  then show ?thesis
    using assms by (simp add: getJavaProcesses_def await_def Let_def toPromise_def obs_map_def)
qed

text \<open>A scan that reports the pids 123 and 456 keeps the process 123 of the listing.\<close>

theorem getJavaProcesses_first_event_witness:
  "map_sum id (map_option (map (\<lambda>row. map row [''user'', ''pid'', ''name''])))
     (getJavaProcesses
        (stubBridge (\<lambda>args. Inr ''USER PID NAME\<newline>root 1 S /init\<newline>u0_a1 123 S com.example.app'')
           (Inr Map.empty))
        (\<lambda>path args. Observable [KindStdout ''123\<newline>456\<newline>''] (Some (Failure ''killed'')))
        ''emulator-5554'')
   = Inr (Some [[Some ''u0_a1'', Some ''123'', Some ''com.example.app'']])"
proof -
  let ?ps = "''USER PID NAME\<newline>root 1 S /init\<newline>u0_a1 123 S com.example.app''"
  let ?a = "stubBridge (\<lambda>args. Inr ?ps) (Inr Map.empty)"
  let ?ev = "KindStdout ''123\<newline>456\<newline>''"
  let ?o = "\<lambda>(path :: string) (args :: string list). Observable [?ev] (Some (Failure ''killed''))"
  let ?D = "[''user'', ''pid'', ''name'']"
  let ?all = "map (rowBody (headerMapping (trim ?ps) ?D)) (dataRows (trim ?ps))"
  have r: "runShortAdbCommand ?a ''emulator-5554'' [''shell'', ''ps''] = Inr ?ps"
    by (simp add: stubBridge_def)
  have p: "parsePsTableOutput (trim ?ps) ?D = Inr ?all" by (rule parse_eq)
  have o: "?o (adbPath ?a)
        ((if ''emulator-5554'' \<noteq> '''' then [''-s'', ''emulator-5554''] else []) @ [''jdwp''])
      = Observable (?ev # []) (Some (Failure ''killed''))"
    by (rule refl)
  have g: "getJavaProcesses ?a ?o ''emulator-5554''
      = Inr (Some (filter (\<lambda>row. has (jdwpPidsOf ?ev) (row ''pid'')) ?all))"
    by (rule getJavaProcesses_first_event[OF r p o])
  have "map (\<lambda>row. map row ?D) (filter (\<lambda>row. has (jdwpPidsOf ?ev) (row ''pid'')) ?all)
      = [[Some ''u0_a1'', Some ''123'', Some ''com.example.app'']]"
    by code_simp
  then show ?thesis by (simp only: g map_sum.simps option.map id_apply)
qed

section \<open>Further properties\<close>

text \<open>
  The first example of the specification: under the header \<open>USER PID NAME\<close>
  the row \<open>root  123  com.example.app\<close> parses to \<open>user = root\<close>, \<open>pid = 123\<close> and
  \<open>name = com.example.app\<close>.
\<close>

theorem parsePsTableOutput_plain_row:
  "fieldsOf [''user'', ''pid'', ''name'']
     (parsePsTableOutput ''USER PID NAME\<newline>root  123  com.example.app''
        [''user'', ''pid'', ''name''])
   = Inr [[Some ''root'', Some ''123'', Some ''com.example.app'']]"
  by code_simp

text \<open>
  Every value of a record is a token of its row, and every key is a desired
  field other than \<open>__proto__\<close>.
\<close>

theorem record_values_are_tokens:
  assumes "parsePsTableOutput output desiredFields = Inr records"
    and "r < length records"
    and "(records ! r) k = Some v"
  shows "v \<in> set (split_ws (dataRows output ! r)) \<and> k \<in> set desiredFields \<and> k \<noteq> ''__proto__''"
proof -
  let ?m = "headerMapping output desiredFields"
  let ?rowData = "split_ws (dataRows output ! r)"
  have rec: "records ! r = rowLoop ?m ?rowData 0 Map.empty"
    by (rule records_nth(2)[OF assms(1,2)])
  then have v: "rowLoop ?m ?rowData 0 Map.empty k = Some v" using assms(3) by simp
  from rowLoop_key[OF v] obtain j where "?m j = Some k" "v \<in> set ?rowData" by auto
  moreover from this have "k \<in> set desiredFields"
    by (auto simp: headerMapping_apply split: if_splits)
  moreover have "k \<noteq> ''__proto__''"
    using v rowLoop_proto[of ?m ?rowData 0 Map.empty] by auto
  ultimately show ?thesis by simp
qed

text \<open>The value of \<open>name\<close> in the record of the row \<open>7 S init\<close> is its token \<open>init\<close>.\<close>

theorem record_values_are_tokens_witness:
  "(\<exists>records.
      parsePsTableOutput ''PID NAME\<newline>7 S init'' [''pid'', ''name''] = Inr records
      \<and> 0 < length records \<and> (records ! 0) ''name'' = Some ''init'')
   \<and> ''init'' \<in> set (split_ws (dataRows ''PID NAME\<newline>7 S init'' ! 0))
   \<and> ''name'' \<in> set [''pid'', ''name'']"
proof -
  let ?X = "''PID NAME\<newline>7 S init''"
  let ?D = "[''pid'', ''name'']"
  let ?records = "map (rowBody (headerMapping ?X ?D)) (dataRows ?X)"
  have rows: "dataRows ?X = [''7 S init'']" by code_simp
  have p: "parsePsTableOutput ?X ?D = Inr ?records" by (rule parse_eq)
  have len: "0 < length ?records" by (simp only: rows) simp
  have "rowBody (headerMapping ?X ?D) ''7 S init'' ''name'' = Some ''init''" by code_simp
  then have v: "(?records ! 0) ''name'' = Some ''init''" by (simp only: rows) simp
  from record_values_are_tokens[OF p len v] p len v
  show ?thesis by blast
qed

end
